theory Spec2Isabelle
  imports Complex_Main "HOL-Library.AList" "HOL-Library.Multiset"
begin

section \<open>Values of a float column\<close>

text \<open>
  A cell of a numeric pandas column is a float: a finite number, one of the two
  infinities, or NaN (pandas' "no value"). Finite numbers are carried as reals and
  arithmetic on them is exact: the rounding of binary64 and the sign of zero are not
  part of this model.
\<close>

datatype fval = NaN | NInf | Fin real | PInf

text \<open>Python's \<^verbatim>\<open><\<close> on floats: false as soon as one side is NaN.\<close>

fun flt :: "fval \<Rightarrow> fval \<Rightarrow> bool" where
  "flt NaN y = False"
| "flt x NaN = False"
| "flt x NInf = False"
| "flt NInf y = True"
| "flt PInf y = False"
| "flt (Fin a) PInf = True"
| "flt (Fin a) (Fin b) = (a < b)"

definition fle :: "fval \<Rightarrow> fval \<Rightarrow> bool" where
  "fle x y = (flt x y \<or> (x = y \<and> x \<noteq> NaN))"

definition fgt :: "fval \<Rightarrow> fval \<Rightarrow> bool" where
  "fgt x y = flt y x"

definition fge :: "fval \<Rightarrow> fval \<Rightarrow> bool" where
  "fge x y = fle y x"

fun fneg :: "fval \<Rightarrow> fval" where
  "fneg NaN = NaN"
| "fneg NInf = PInf"
| "fneg (Fin a) = Fin (- a)"
| "fneg PInf = NInf"

fun fabs :: "fval \<Rightarrow> fval" where
  "fabs NaN = NaN"
| "fabs NInf = PInf"
| "fabs (Fin a) = Fin \<bar>a\<bar>"
| "fabs PInf = PInf"

text \<open>
  Float division as numpy performs it on a float column (no exception): a non-zero
  number over zero is an infinity, zero over zero is NaN.
\<close>

fun fdiv :: "fval \<Rightarrow> fval \<Rightarrow> fval" where
  "fdiv NaN y = NaN"
| "fdiv x NaN = NaN"
| "fdiv (Fin a) (Fin b) =
     (if b = 0 then (if a = 0 then NaN else if 0 < a then PInf else NInf)
      else Fin (a / b))"
| "fdiv (Fin a) y = Fin 0"
| "fdiv x (Fin b) = (if (x = PInf) = (0 \<le> b) then PInf else NInf)"
| "fdiv x y = NaN"

fun fsub :: "fval \<Rightarrow> fval \<Rightarrow> fval" where
  "fsub NaN y = NaN"
| "fsub x NaN = NaN"
| "fsub (Fin a) (Fin b) = Fin (a - b)"
| "fsub (Fin a) PInf = NInf"
| "fsub (Fin a) NInf = PInf"
| "fsub PInf PInf = NaN"
| "fsub PInf y = PInf"
| "fsub NInf NInf = NaN"
| "fsub NInf y = NInf"

section \<open>Data frames\<close>

text \<open>
  A pandas DataFrame: the row index and the named columns, each column as long as
  the index. The index of the frames built here is the bar's timestamp, in seconds
  since the epoch (the integer that \<^verbatim>\<open>pd.to_datetime(..., unit='s')\<close> reads).
\<close>

record dataframe =
  index :: "int list"
  cols :: "(string \<times> fval list) list"

definition wf_df :: "dataframe \<Rightarrow> bool" where
  "wf_df df = list_all (\<lambda>cv. length (snd cv) = length (index df)) (cols df)"

datatype py_error = KeyError

text \<open>\<^verbatim>\<open>df[name]\<close>: the column, or KeyError.\<close>

definition getitem :: "dataframe \<Rightarrow> string \<Rightarrow> py_error + fval list" where
  "getitem df name = (case map_of (cols df) name of None \<Rightarrow> Inl KeyError | Some vs \<Rightarrow> Inr vs)"

text \<open>\<^verbatim>\<open>df[name] = values\<close>: replaces the column, or appends a new one.\<close>

definition setitem :: "dataframe \<Rightarrow> string \<Rightarrow> fval list \<Rightarrow> dataframe" where
  "setitem df name vs = df\<lparr>cols := AList.update name vs (cols df)\<rparr>"

text \<open>Selecting by a boolean mask keeps the positions where the mask is true.\<close>

definition sel :: "bool list \<Rightarrow> 'a list \<Rightarrow> 'a list" where
  "sel msk xs = map snd (filter fst (zip msk xs))"

text \<open>\<^verbatim>\<open>df[mask]\<close>: a new frame with the selected rows of every column.\<close>

definition select_rows :: "bool list \<Rightarrow> dataframe \<Rightarrow> dataframe" where
  "select_rows msk df =
     \<lparr>index = sel msk (index df), cols = map (\<lambda>(c, vs). (c, sel msk vs)) (cols df)\<rparr>"

text \<open>\<^verbatim>\<open>df.take(perm)\<close>: the rows at the given positions, in that order.\<close>

definition take_rows :: "nat list \<Rightarrow> dataframe \<Rightarrow> dataframe" where
  "take_rows perm df =
     \<lparr>index = map (\<lambda>i. index df ! i) perm,
      cols = map (\<lambda>(c, vs). (c, map (\<lambda>i. vs ! i) perm)) (cols df)\<rparr>"

text \<open>
  \<^verbatim>\<open>df.sort_index()\<close>: the rows in ascending order of the index. Rows with equal
  index values are all kept; the order among them is the library's choice (here the
  order they had), and no theorem below depends on it.
\<close>

definition sort_index :: "dataframe \<Rightarrow> dataframe" where
  "sort_index df = take_rows (sort_key (\<lambda>i. index df ! i) [0..<length (index df)]) df"

text \<open>\<^verbatim>\<open>s.shift(p)\<close> moves the values p positions down and fills the top with NaN.\<close>

definition shift :: "nat \<Rightarrow> fval list \<Rightarrow> fval list" where
  "shift p xs = replicate (min p (length xs)) NaN @ take (length xs - p) xs"

text \<open>\<^verbatim>\<open>s.pct_change(p)\<close> is \<^verbatim>\<open>s / s.shift(p) - 1\<close>, position by position.\<close>

definition pct_change :: "nat \<Rightarrow> fval list \<Rightarrow> fval list" where
  "pct_change p xs = map (\<lambda>(x, y). fsub (fdiv x y) (Fin 1)) (zip xs (shift p xs))"

section \<open>process_data\<close>

text \<open>A raw candle record, with the two fields the pipeline reads.\<close>

record candle =
  time :: int
  close :: real

text \<open>
  \<^verbatim>\<open>pd.DataFrame(all_candles)\<close> followed by
  \<^verbatim>\<open>df['datetime'] = pd.to_datetime(df['time'], unit='s')\<close> and
  \<^verbatim>\<open>df.set_index('datetime', inplace=True)\<close>: one row per record, in the order of
  the list, indexed by the record's time.
\<close>

definition DataFrame :: "candle list \<Rightarrow> dataframe" where
  "DataFrame cs =
     \<lparr>index = map time cs,
      cols = [(''time'', map (\<lambda>c. Fin (of_int (time c))) cs),
              (''close'', map (\<lambda>c. Fin (close c)) cs)]\<rparr>"

text \<open>\<^verbatim>\<open>df[dst] = df[src].pct_change(p)\<close>.\<close>

definition pct_col :: "dataframe \<Rightarrow> string \<Rightarrow> nat \<Rightarrow> string \<Rightarrow> py_error + dataframe" where
  "pct_col df src p dst =
     (case getitem df src of
        Inl e \<Rightarrow> Inl e
      | Inr vs \<Rightarrow> Inr (setitem df dst (pct_change p vs)))"

text \<open>
  The fetch of one day's candles is a parameter (it is the network); \<open>dates\<close> is the
  configured date range. A fetch returns the candles it got, or the empty list after a
  failed request; the ValueError it raises when no credentials are configured is not
  part of this model. None is the source's \<^verbatim>\<open>return None\<close>. The messages printed on
  the way are not modelled.
\<close>

definition process_data ::
    "(string \<Rightarrow> string \<Rightarrow> string \<Rightarrow> candle list) \<Rightarrow> string list \<Rightarrow> string \<Rightarrow> string
      \<Rightarrow> py_error + dataframe option" where
  "process_data fetch_candle_data dates symbol resolution =
     (let all_candles = concat (map (\<lambda>date. fetch_candle_data symbol date resolution) dates) in
      if all_candles = [] then Inr None
      else
        let df = sort_index (DataFrame all_candles);
            factor = (if resolution = ''1m'' then 1
                      else if resolution = ''1s'' then 60
                      else 1 :: nat)
        in case pct_col df ''close'' (5 * factor) ''ret_5m'' of
             Inl e \<Rightarrow> Inl e
           | Inr df \<Rightarrow>
        (case pct_col df ''close'' (10 * factor) ''ret_10m'' of
             Inl e \<Rightarrow> Inl e
           | Inr df \<Rightarrow>
        (case pct_col df ''close'' (15 * factor) ''ret_15m'' of
             Inl e \<Rightarrow> Inl e
           | Inr df \<Rightarrow> Inr (Some df))))"

section \<open>analyze_volatility\<close>

record bucket_row =
  Bucket :: string
  Pumps :: nat
  Dumps :: nat

definition buckets :: "(fval \<times> fval \<times> string) list" where
  "buckets =
     [(Fin 0.005, Fin 0.006, ''0.5% - 0.6%''),
      (Fin 0.006, Fin 0.007, ''0.6% - 0.7%''),
      (Fin 0.007, Fin 0.008, ''0.7% - 0.8%''),
      (Fin 0.008, Fin 0.009, ''0.8% - 0.9%''),
      (Fin 0.009, Fin 0.010, ''0.9% - 1.0%''),
      (Fin 0.010, Fin 0.015, ''1.0% - 1.5%''),
      (Fin 0.015, Fin 0.020, ''1.5% - 2.0%''),
      (Fin 0.020, PInf, ''> 2.0%'')]"

text \<open>The event filter: \<^verbatim>\<open>df[window_col].abs() >= 0.005\<close>.\<close>

definition is_event :: "fval \<Rightarrow> bool" where
  "is_event r = fge (fabs r) (Fin 0.005)"

text \<open>The two row filters of the loop body.\<close>

definition pump_test :: "fval \<Rightarrow> fval \<Rightarrow> fval \<Rightarrow> bool" where
  "pump_test low high r = (fge r low \<and> flt r high)"

definition dump_test :: "fval \<Rightarrow> fval \<Rightarrow> fval \<Rightarrow> bool" where
  "dump_test low high r = (fle r (fneg low) \<and> fgt r (fneg high))"

text \<open>
  One turn of the loop: the rows of \<open>events\<close> that pass each filter are counted.
  \<open>ev\<close> is \<^verbatim>\<open>events[window_col]\<close>.
\<close>

definition bucket_counts :: "dataframe \<Rightarrow> fval list \<Rightarrow> fval \<times> fval \<times> string \<Rightarrow> bucket_row" where
  "bucket_counts events ev b =
     (case b of (low, high, label) \<Rightarrow>
        let pumps = select_rows (map (pump_test low high) ev) events;
            dumps = select_rows (map (dump_test low high) ev) events
        in \<lparr>Bucket = label, Pumps = length (index pumps), Dumps = length (index dumps)\<rparr>)"

definition analyze_volatility :: "dataframe \<Rightarrow> string \<Rightarrow> py_error + bucket_row list" where
  "analyze_volatility df window_col =
     (case getitem df window_col of
        Inl e \<Rightarrow> Inl e
      | Inr col \<Rightarrow>
          let events = select_rows (map is_event col) df in
          if index events = [] then Inr []
          else (case getitem events window_col of
                  Inl e \<Rightarrow> Inl e
                | Inr ev \<Rightarrow> Inr (map (bucket_counts events ev) buckets)))"

text \<open>How many buckets count a return as a pump, and how many as a dump.\<close>

definition pump_hits :: "fval \<Rightarrow> nat" where
  "pump_hits r = length (filter (\<lambda>b. case b of (low, high, label) \<Rightarrow> pump_test low high r) buckets)"

definition dump_hits :: "fval \<Rightarrow> nat" where
  "dump_hits r = length (filter (\<lambda>b. case b of (low, high, label) \<Rightarrow> dump_test low high r) buckets)"

definition is_inf :: "fval \<Rightarrow> bool" where
  "is_inf r = (r = PInf \<or> r = NInf)"

section \<open>analyze_volatility on a store of frames\<close>

text \<open>
  To follow which objects the function writes, frames live in a store and are named by
  their position in it. A new frame is put at the end; nothing in this program writes
  to a frame that exists (\<^verbatim>\<open>df[mask]\<close> and \<^verbatim>\<open>.copy()\<close> each build a new frame).
\<close>

type_synonym store = "dataframe list"

definition alloc :: "store \<Rightarrow> dataframe \<Rightarrow> nat \<times> store" where
  "alloc h df = (length h, h @ [df])"

text \<open>
  One turn of the loop. The source reads \<^verbatim>\<open>events[window_col]\<close> again in every
  filter; \<open>events\<close> is the reference to the frame of events.
\<close>

definition bucket_counts_st ::
    "nat \<Rightarrow> string \<Rightarrow> (py_error + bucket_row list) \<times> store \<Rightarrow> fval \<times> fval \<times> string
      \<Rightarrow> (py_error + bucket_row list) \<times> store" where
  "bucket_counts_st events window_col acc b =
     (case (acc, b) of
        ((Inl e, h), _) \<Rightarrow> (Inl e, h)
      | ((Inr results, h), (low, high, label)) \<Rightarrow>
          (case getitem (h ! events) window_col of
             Inl e \<Rightarrow> (Inl e, h)
           | Inr ev \<Rightarrow>
               let (pumps, h) = alloc h (select_rows (map (pump_test low high) ev) (h ! events));
                   (dumps, h) = alloc h (select_rows (map (dump_test low high) ev) (h ! events))
               in (Inr (results @ [\<lparr>Bucket = label,
                                      Pumps = length (index (h ! pumps)),
                                      Dumps = length (index (h ! dumps))\<rparr>]), h)))"

definition analyze_volatility_st ::
    "store \<Rightarrow> nat \<Rightarrow> string \<Rightarrow> (py_error + bucket_row list) \<times> store" where
  "analyze_volatility_st h df window_col =
     (case getitem (h ! df) window_col of
        Inl e \<Rightarrow> (Inl e, h)
      | Inr col \<Rightarrow>
          let (selected, h) = alloc h (select_rows (map is_event col) (h ! df));
              (events, h) = alloc h (h ! selected)
          in if index (h ! events) = [] then (Inr [], h)
             else foldl (bucket_counts_st events window_col) (Inr [], h) buckets)"

section \<open>Inputs used in the examples\<close>

definition dates :: "string list" where
  "dates = [''2025-12-11'', ''2025-12-12'', ''2025-12-13'']"

text \<open>A supplier that delivers the given candles on the first day and nothing after.\<close>

definition first_day :: "candle list \<Rightarrow> string \<Rightarrow> string \<Rightarrow> string \<Rightarrow> candle list" where
  "first_day cs symbol date resolution = (if date = ''2025-12-11'' then cs else [])"

text \<open>One candle a minute from time 0, with the given closes.\<close>

definition minute_bars :: "real list \<Rightarrow> candle list" where
  "minute_bars closes = map (\<lambda>ic. \<lparr>time = 60 * int (fst ic), close = snd ic\<rparr>) (enumerate 0 closes)"

text \<open>One candle a second from time 0, with the given closes.\<close>

definition second_bars :: "real list \<Rightarrow> candle list" where
  "second_bars closes = map (\<lambda>ic. \<lparr>time = int (fst ic), close = snd ic\<rparr>) (enumerate 0 closes)"



section \<open>Closed forms\<close>

text \<open>The table that the loop of \<open>analyze_volatility\<close> builds from the returns of the events.\<close>

definition rows_of :: "fval list \<Rightarrow> bucket_row list" where
  "rows_of ev = map (\<lambda>b. case b of (low, high, label) \<Rightarrow>
                  \<lparr>Bucket = label,
                   Pumps = length (filter (pump_test low high) ev),
                   Dumps = length (filter (dump_test low high) ev)\<rparr>) buckets"

text \<open>The bars per minute that \<open>process_data\<close> derives from the resolution.\<close>

definition factor_of :: "string \<Rightarrow> nat" where
  "factor_of resolution = (if resolution = ''1s'' then 60 else 1)"

text \<open>The windows of \<open>process_data\<close>: the minutes and the column that holds the returns.\<close>

definition windows :: "(nat \<times> string) list" where
  "windows = [(5, ''ret_5m''), (10, ''ret_10m''), (15, ''ret_15m'')]"

text \<open>The frame that \<open>process_data\<close> returns for a sorted list of bars.\<close>

definition frame_of :: "candle list \<Rightarrow> nat \<Rightarrow> dataframe" where
  "frame_of bars factor =
     \<lparr>index = map time bars,
      cols = [(''time'', map (\<lambda>c. Fin (of_int (time c))) bars),
              (''close'', map (\<lambda>c. Fin (close c)) bars),
              (''ret_5m'', pct_change (5 * factor) (map (\<lambda>c. Fin (close c)) bars)),
              (''ret_10m'', pct_change (10 * factor) (map (\<lambda>c. Fin (close c)) bars)),
              (''ret_15m'', pct_change (15 * factor) (map (\<lambda>c. Fin (close c)) bars))]\<rparr>"

section \<open>Floats\<close>

lemma fge_Fin [simp]: "fge (Fin a) (Fin b) = (b \<le> a)" by (auto simp: fge_def fle_def)
lemma fle_Fin [simp]: "fle (Fin a) (Fin b) = (a \<le> b)" by (auto simp: fle_def)
lemma fgt_Fin [simp]: "fgt (Fin a) (Fin b) = (b < a)" by (simp add: fgt_def)
lemma fgt_NInf [simp]: "fgt (Fin a) NInf" by (simp add: fgt_def)

lemma fdiv_NaN [simp]: "fdiv x NaN = NaN"
  by (cases x) simp_all

lemma fsub_NaN [simp]: "fsub x NaN = NaN"
  by (cases x) simp_all

section \<open>Selecting rows\<close>

lemma sel_map: "sel (map P xs) xs = filter P xs"
  by (induction xs) (simp_all add: sel_def)

lemma length_sel: "length ys = length xs \<Longrightarrow> length (sel (map P xs) ys) = length (filter P xs)"
  by (induction xs ys rule: list_induct2') (simp_all add: sel_def)

lemma getitem_select_rows:
  "getitem (select_rows m df) c = map_sum id (sel m) (getitem df c)"
  by (simp add: getitem_def select_rows_def map_of_map comp_def split: option.splits)

lemma wf_getitem: "wf_df df \<Longrightarrow> getitem df c = Inr col \<Longrightarrow> length col = length (index df)"
  by (auto simp: wf_df_def getitem_def list_all_iff split: option.splits dest!: map_of_SomeD)

lemma bucket_counts_eq:
  "length (index events) = length ev \<Longrightarrow>
   bucket_counts events ev (low, high, label) =
     \<lparr>Bucket = label, Pumps = length (filter (pump_test low high) ev),
      Dumps = length (filter (dump_test low high) ev)\<rparr>"
  by (simp add: bucket_counts_def select_rows_def length_sel)

lemma analyze_volatility_eq:
  assumes "wf_df df" and "getitem df c = Inr col"
  shows "analyze_volatility df c =
     (if filter is_event col = [] then Inr []
      else Inr (map (\<lambda>b. case b of (low, high, label) \<Rightarrow>
                  \<lparr>Bucket = label,
                   Pumps = length (filter (pump_test low high) (filter is_event col)),
                   Dumps = length (filter (dump_test low high) (filter is_event col))\<rparr>) buckets))"
proof -
  have len: "length col = length (index df)" using assms by (rule wf_getitem)
  let ?events = "select_rows (map is_event col) df"
  have ev: "getitem ?events c = Inr (filter is_event col)"
    by (simp add: getitem_select_rows assms sel_map)
  have n: "length (index ?events) = length (filter is_event col)"
    by (simp add: select_rows_def length_sel len)
  have e: "(index ?events = []) = (filter is_event col = [])"
    using n by (metis length_0_conv)
  have bc: "map (bucket_counts ?events (filter is_event col)) buckets =
      map (\<lambda>b. case b of (low, high, label) \<Rightarrow>
                  \<lparr>Bucket = label,
                   Pumps = length (filter (pump_test low high) (filter is_event col)),
                   Dumps = length (filter (dump_test low high) (filter is_event col))\<rparr>) buckets"
    by (rule map_cong[OF refl]) (auto simp: bucket_counts_eq[OF n])
  show ?thesis
    unfolding analyze_volatility_def by (simp add: assms Let_def ev e bc del: filter_filter)
qed

lemma sum_filter_swap:
  "(\<Sum>b\<leftarrow>bs. length (filter (P b) xs)) = (\<Sum>x\<leftarrow>xs. length (filter (\<lambda>b. P b x) bs))"
proof (induction xs)
  case Nil
  show ?case by simp
next
  case (Cons x xs)
  have "(\<Sum>b\<leftarrow>bs. length (filter (P b) (x # xs)))
      = (\<Sum>b\<leftarrow>bs. (if P b x then 1 else 0) + length (filter (P b) xs))"
    by (rule arg_cong[where f = sum_list], rule map_cong) simp_all
  also have "\<dots> = (\<Sum>b\<leftarrow>bs. if P b x then 1 else 0) + (\<Sum>b\<leftarrow>bs. length (filter (P b) xs))"
    by (simp add: sum_list_addf)
  also have "(\<Sum>b\<leftarrow>bs. if P b x then 1 else 0) = length (filter (\<lambda>b. P b x) bs)"
    by (induction bs) simp_all
  finally show ?case using Cons.IH by simp
qed

section \<open>Every return and the buckets\<close>

lemma pump_hits_Fin:
  "pump_hits (Fin a) = (if 0.005 \<le> a then 1 else 0)"
proof -
  consider "a < 0.005" | "0.005 \<le> a" "a < 0.006" | "0.006 \<le> a" "a < 0.007"
    | "0.007 \<le> a" "a < 0.008" | "0.008 \<le> a" "a < 0.009" | "0.009 \<le> a" "a < 0.010"
    | "0.010 \<le> a" "a < 0.015" | "0.015 \<le> a" "a < 0.020" | "0.020 \<le> a"
    by linarith
  then show ?thesis
    by cases (simp_all add: pump_hits_def buckets_def pump_test_def)
qed

lemma dump_hits_Fin:
  "dump_hits (Fin a) = (if a \<le> - 0.005 then 1 else 0)"
proof -
  consider "- 0.005 < a" | "a \<le> - 0.005" "- 0.006 < a" | "a \<le> - 0.006" "- 0.007 < a"
    | "a \<le> - 0.007" "- 0.008 < a" | "a \<le> - 0.008" "- 0.009 < a" | "a \<le> - 0.009" "- 0.010 < a"
    | "a \<le> - 0.010" "- 0.015 < a" | "a \<le> - 0.015" "- 0.020 < a" | "a \<le> - 0.020"
    by linarith
  then show ?thesis
    by cases (simp_all add: dump_hits_def buckets_def dump_test_def)
qed

lemma hits_not_Fin:
  "pump_hits PInf = 0" "dump_hits PInf = 0" "pump_hits NInf = 0" "dump_hits NInf = 0"
  "pump_hits NaN = 0" "dump_hits NaN = 0"
  by (simp_all add: pump_hits_def dump_hits_def buckets_def pump_test_def dump_test_def
        fle_def fge_def fgt_def)



lemma hits_le_1: "pump_hits r + dump_hits r \<le> 1"
  by (cases r) (simp_all add: hits_not_Fin pump_hits_Fin dump_hits_Fin)


lemma sum_Pumps: "sum_list (map Pumps (rows_of ev)) = (\<Sum>r\<leftarrow>ev. pump_hits r)"
proof -
  have "sum_list (map Pumps (rows_of ev))
      = (\<Sum>b\<leftarrow>buckets. length (filter (\<lambda>r. case b of (low, high, label) \<Rightarrow> pump_test low high r) ev))"
    unfolding rows_of_def map_map
    by (rule arg_cong[where f = sum_list], rule map_cong) (auto simp: comp_def)
  also have "\<dots> = (\<Sum>r\<leftarrow>ev. pump_hits r)"
    unfolding pump_hits_def by (rule sum_filter_swap)
  finally show ?thesis .
qed

lemma sum_Dumps: "sum_list (map Dumps (rows_of ev)) = (\<Sum>r\<leftarrow>ev. dump_hits r)"
proof -
  have "sum_list (map Dumps (rows_of ev))
      = (\<Sum>b\<leftarrow>buckets. length (filter (\<lambda>r. case b of (low, high, label) \<Rightarrow> dump_test low high r) ev))"
    unfolding rows_of_def map_map
    by (rule arg_cong[where f = sum_list], rule map_cong) (auto simp: comp_def)
  also have "\<dots> = (\<Sum>r\<leftarrow>ev. dump_hits r)"
    unfolding dump_hits_def by (rule sum_filter_swap)
  finally show ?thesis .
qed

lemma total_counts:
  "sum_list (map Pumps (rows_of ev)) + sum_list (map Dumps (rows_of ev))
     = (\<Sum>r\<leftarrow>ev. pump_hits r + dump_hits r)"
  by (simp add: sum_Pumps sum_Dumps sum_list_addf)

lemma total_le: "(\<Sum>r\<leftarrow>ev. pump_hits r + dump_hits r) \<le> length ev"
proof (induction ev)
  case Nil
  show ?case by simp
next
  case (Cons r ev)
  then show ?case using hits_le_1[of r] by simp
qed




lemma analyze_volatility_rows:
  assumes "wf_df df" and "getitem df c = Inr col"
  shows "analyze_volatility df c =
     (if filter is_event col = [] then Inr [] else Inr (rows_of (filter is_event col)))"
  unfolding rows_of_def by (rule analyze_volatility_eq[OF assms])

section \<open>The frame built by process_data\<close>

lemma insort_key_map: "insort_key f (g a) (map g xs) = map g (insort_key (\<lambda>x. f (g x)) a xs)"
  by (induction xs) simp_all

lemma sort_key_map: "sort_key f (map g xs) = map g (sort_key (\<lambda>x. f (g x)) xs)"
  by (induction xs) (simp_all add: insort_key_map)

lemma insort_key_agree:
  "f a = g a \<Longrightarrow> (\<And>x. x \<in> set xs \<Longrightarrow> f x = g x) \<Longrightarrow> insort_key f a xs = insort_key g a xs"
  by (induction xs) simp_all

lemma sort_key_agree:
  "(\<And>x. x \<in> set xs \<Longrightarrow> f x = g x) \<Longrightarrow> sort_key f xs = sort_key g xs"
proof (induction xs)
  case Nil
  show ?case by simp
next
  case (Cons a xs)
  have "sort_key f xs = sort_key g xs" using Cons by simp
  moreover have "insort_key f a (sort_key g xs) = insort_key g a (sort_key g xs)"
    by (rule insort_key_agree) (simp_all add: Cons.prems)
  ultimately show ?case by simp
qed

lemma argsort_nth:
  "map (\<lambda>i. cs ! i) (sort_key (\<lambda>i. map f cs ! i) [0..<length cs]) = sort_key f cs"
proof -
  have "sort_key (\<lambda>i. map f cs ! i) [0..<length cs] = sort_key (\<lambda>i. f (cs ! i)) [0..<length cs]"
    by (rule sort_key_agree) simp
  moreover have "sort_key f (map (\<lambda>i. cs ! i) [0..<length cs])
      = map (\<lambda>i. cs ! i) (sort_key (\<lambda>i. f (cs ! i)) [0..<length cs])"
    by (rule sort_key_map)
  ultimately show ?thesis by (simp add: map_nth)
qed

lemma argsort_col:
  "map (\<lambda>i. map g cs ! i) (sort_key (\<lambda>i. map f cs ! i) [0..<length cs]) = map g (sort_key f cs)"
proof -
  let ?perm = "sort_key (\<lambda>i. map f cs ! i) [0..<length cs]"
  have "map (\<lambda>i. map g cs ! i) ?perm = map (\<lambda>i. g (cs ! i)) ?perm"
    by (rule map_cong) simp_all
  also have "\<dots> = map g (map (\<lambda>i. cs ! i) ?perm)" by simp
  finally show ?thesis by (simp only: argsort_nth)
qed

lemma sort_index_DataFrame: "sort_index (DataFrame cs) = DataFrame (sort_key time cs)"
  by (simp add: sort_index_def take_rows_def DataFrame_def argsort_col)

lemma process_data_eq:
  "process_data fetch ds symbol resolution =
     (let all_candles = concat (map (\<lambda>date. fetch symbol date resolution) ds) in
      if all_candles = [] then Inr None
      else Inr (Some (frame_of (sort_key time all_candles) (factor_of resolution))))"
proof -
  have steps: "(case pct_col (DataFrame bars) ''close'' (5 * k) ''ret_5m'' of
             Inl e \<Rightarrow> Inl e
           | Inr df \<Rightarrow>
        (case pct_col df ''close'' (10 * k) ''ret_10m'' of
             Inl e \<Rightarrow> Inl e
           | Inr df \<Rightarrow>
        (case pct_col df ''close'' (15 * k) ''ret_15m'' of
             Inl e \<Rightarrow> Inl e
           | Inr df \<Rightarrow> Inr (Some df)))) = Inr (Some (frame_of bars k))" for bars k
    by (simp add: pct_col_def getitem_def setitem_def DataFrame_def frame_of_def)
  have k: "(if resolution = ''1m'' then 1 else if resolution = ''1s'' then 60 else (1::nat))
      = factor_of resolution"
    by (simp add: factor_of_def)
  show ?thesis
    unfolding process_data_def Let_def sort_index_DataFrame k steps by simp
qed

lemma length_shift: "length (shift p xs) = length xs"
  by (simp add: shift_def)

lemma length_pct_change: "length (pct_change p xs) = length xs"
  by (simp add: pct_change_def length_shift)

lemma nth_shift: "i < length xs \<Longrightarrow> shift p xs ! i = (if i < p then NaN else xs ! (i - p))"
  by (auto simp: shift_def nth_append)

lemma nth_pct_change:
  "i < length xs \<Longrightarrow>
   pct_change p xs ! i = (if i < p then NaN else fsub (fdiv (xs ! i) (xs ! (i - p))) (Fin 1))"
  by (simp add: pct_change_def length_shift nth_shift)


lemma dump_mirror:
  "flt r (Fin 0) \<Longrightarrow> dump_test low high r = pump_test low high (fabs r)"
  by (cases r; cases low; cases high)
     (auto simp: dump_test_def pump_test_def fle_def fge_def fgt_def)

lemmas eval_defs = analyze_volatility_def getitem_def select_rows_def sel_def bucket_counts_def
  buckets_def is_event_def pump_test_def dump_test_def fle_def fge_def fgt_def wf_df_def is_inf_def

lemma process_data_Some:
  assumes "process_data fetch ds symbol resolution = Inr (Some df)"
  shows "concat (map (\<lambda>date. fetch symbol date resolution) ds) \<noteq> [] \<and>
         df = frame_of (sort_key time (concat (map (\<lambda>date. fetch symbol date resolution) ds)))
                (factor_of resolution)"
  using assms unfolding process_data_eq Let_def by (simp split: if_splits)

lemma getitem_frame_of_close:
  "getitem (frame_of bars k) ''close'' = Inr (map (\<lambda>c. Fin (close c)) bars)"
  by (simp add: getitem_def frame_of_def)

lemma getitem_frame_of_ret:
  "(n, c) \<in> set windows \<Longrightarrow>
   getitem (frame_of bars k) c = Inr (pct_change (n * k) (map (\<lambda>c. Fin (close c)) bars))"
  by (auto simp: getitem_def frame_of_def windows_def)

lemma index_frame_of: "index (frame_of bars k) = map time bars"
  by (simp add: frame_of_def)




lemma map_time_second_bars: "map time (second_bars cs) = map int [0..<length cs]"
  by (rule nth_equalityI) (simp_all add: second_bars_def enumerate_eq_zip)

lemma map_close_second_bars: "map close (second_bars cs) = cs"
proof -
  have "map close (second_bars cs) = map snd (zip [0..<length cs] cs)"
    by (simp add: second_bars_def enumerate_eq_zip comp_def)
  then show ?thesis by simp
qed

lemma sort_second_bars: "sort_key time (second_bars cs) = second_bars cs"
proof -
  have "sorted (map int [0..<length cs])"
    by (simp add: sorted_map sorted_wrt_iff_nth_less)
  then show ?thesis
    by (intro sort_key_id_if_sorted) (simp add: map_time_second_bars)
qed

lemma second_bars_nonempty: "cs \<noteq> [] \<Longrightarrow> second_bars cs \<noteq> []"
  by (simp add: second_bars_def enumerate_eq_zip)

lemmas run_defs = process_data_eq first_day_def dates_def minute_bars_def factor_of_def

section \<open>The store\<close>

lemma bucket_counts_st_step:
  assumes "events < length h" and "getitem (h ! events) window_col = Inr ev"
  shows "\<exists>h'. bucket_counts_st events window_col (Inr results, h) b =
           (Inr (results @ [bucket_counts (h ! events) ev b]), h @ h')"
proof -
  obtain low high label where b: "b = (low, high, label)" by (cases b) auto
  let ?p = "select_rows (map (pump_test low high) ev) (h ! events)"
  let ?d = "select_rows (map (dump_test low high) ev) (h ! events)"
  have "bucket_counts_st events window_col (Inr results, h) b =
           (Inr (results @ [bucket_counts (h ! events) ev b]), h @ [?p, ?d])"
    using assms
    by (simp add: bucket_counts_st_def bucket_counts_def b alloc_def Let_def nth_append)
  then show ?thesis by blast
qed

lemma bucket_loop:
  assumes "events < length h" and "getitem (h ! events) window_col = Inr ev"
  shows "\<exists>h'. foldl (bucket_counts_st events window_col) (Inr results, h) bs =
           (Inr (results @ map (bucket_counts (h ! events) ev) bs), h @ h')"
  using assms
proof (induction bs arbitrary: results h)
  case Nil
  show ?case by simp
next
  case (Cons b bs)
  from bucket_counts_st_step[OF Cons.prems, of results b]
  obtain h1 where s: "bucket_counts_st events window_col (Inr results, h) b =
           (Inr (results @ [bucket_counts (h ! events) ev b]), h @ h1)"
    by blast
  have e: "events < length (h @ h1)" using Cons.prems(1) by simp
  have n: "(h @ h1) ! events = h ! events" using Cons.prems(1) by (simp add: nth_append)
  have g: "getitem ((h @ h1) ! events) window_col = Inr ev" using Cons.prems(2) n by simp
  from Cons.IH[OF e g, of "results @ [bucket_counts (h ! events) ev b]"]
  obtain h2 where "foldl (bucket_counts_st events window_col)
        (Inr (results @ [bucket_counts (h ! events) ev b]), h @ h1) bs =
      (Inr ((results @ [bucket_counts (h ! events) ev b]) @ map (bucket_counts (h ! events) ev) bs),
       (h @ h1) @ h2)"
    unfolding n by blast
  then have "foldl (bucket_counts_st events window_col) (Inr results, h) (b # bs) =
      (Inr (results @ map (bucket_counts (h ! events) ev) (b # bs)), h @ (h1 @ h2))"
    using s by simp
  then show ?case by blast
qed

lemma analyze_volatility_st_eq:
  "\<exists>h'. analyze_volatility_st h df window_col = (analyze_volatility (h ! df) window_col, h @ h')"
proof (cases "getitem (h ! df) window_col")
  case (Inl e)
  then have "analyze_volatility_st h df window_col = (analyze_volatility (h ! df) window_col, h @ [])"
    by (simp add: analyze_volatility_st_def analyze_volatility_def)
  then show ?thesis by blast
next
  case (Inr col)
  let ?ev = "select_rows (map is_event col) (h ! df)"
  let ?h2 = "h @ [?ev, ?ev]"
  let ?e = "Suc (length h)"
  have ge: "getitem ?ev window_col = Inr (sel (map is_event col) col)"
    by (simp add: getitem_select_rows Inr)
  have st: "analyze_volatility_st h df window_col =
      (if index ?ev = [] then (Inr [], ?h2)
       else foldl (bucket_counts_st ?e window_col) (Inr [], ?h2) buckets)"
    by (simp add: analyze_volatility_st_def Inr alloc_def Let_def nth_append)
  have pu: "analyze_volatility (h ! df) window_col =
      (if index ?ev = [] then Inr []
       else Inr (map (bucket_counts ?ev (sel (map is_event col) col)) buckets))"
    by (simp add: analyze_volatility_def Inr Let_def ge)
  show ?thesis
  proof (cases "index ?ev = []")
    case True
    then show ?thesis using st pu by (intro exI[of _ "[?ev, ?ev]"]) simp
  next
    case False
    have e: "?e < length ?h2" by simp
    have n: "?h2 ! ?e = ?ev" by (simp add: nth_append)
    have g: "getitem (?h2 ! ?e) window_col = Inr (sel (map is_event col) col)"
      unfolding n by (rule ge)
    from bucket_loop[OF e g, of "[]" buckets]
    obtain h3 where "foldl (bucket_counts_st ?e window_col) (Inr [], ?h2) buckets =
        (Inr (map (bucket_counts ?ev (sel (map is_event col) col)) buckets), ?h2 @ h3)"
      unfolding n by auto
    then have "analyze_volatility_st h df window_col =
        (analyze_volatility (h ! df) window_col, h @ ([?ev, ?ev] @ h3))"
      using st pu False by simp
    then show ?thesis by blast
  qed
qed

section \<open>Bucket completeness\<close>




section \<open>A zero close at the reference point\<close>




section \<open>The bar series\<close>

text \<open>
  C3 (as amended). For every collection of raw bar records (out of order or with
  repeated timestamps), the built bar series is sorted ascending by timestamp (equal
  timestamps next to each other) and holds every raw record exactly as often as the
  input does: records with a repeated timestamp are all kept, none replaces another.
  The result is a function of the input list.
\<close>

theorem bar_series_sorted:
  assumes "process_data fetch ds symbol resolution = Inr (Some df)"
  shows "\<exists>cl. getitem df ''close'' = Inr cl \<and> sorted (index df) \<and>
           mset (zip (index df) cl) =
             mset (map (\<lambda>c. (time c, Fin (close c)))
                    (concat (map (\<lambda>date. fetch symbol date resolution) ds))) \<and>
           length (index df) = length (concat (map (\<lambda>date. fetch symbol date resolution) ds))"
proof -
  let ?all = "concat (map (\<lambda>date. fetch symbol date resolution) ds)"
  let ?bars = "sort_key time ?all"
  have df: "df = frame_of ?bars (factor_of resolution)"
    using process_data_Some[OF assms(1)] by simp
  have z: "zip (map time ?bars) (map (\<lambda>c. Fin (close c)) ?bars)
      = map (\<lambda>c. (time c, Fin (close c))) ?bars"
    by (simp add: zip_map_map zip_same_conv_map)
  have "getitem df ''close'' = Inr (map (\<lambda>c. Fin (close c)) ?bars)"
    unfolding df by (rule getitem_frame_of_close)
  moreover have "sorted (index df)"
    unfolding df index_frame_of by (rule sorted_sort_key)
  moreover have "mset (zip (index df) (map (\<lambda>c. Fin (close c)) ?bars))
      = mset (map (\<lambda>c. (time c, Fin (close c))) ?all)"
    unfolding df index_frame_of z by simp
  moreover have "length (index df) = length ?all"
    unfolding df index_frame_of by simp
  ultimately show ?thesis by blast
qed

theorem bar_series_sorted_witness:
  "\<exists>df cl.
      process_data (first_day [\<lparr>time = 60, close = 5\<rparr>, \<lparr>time = 0, close = 10\<rparr>,
                                \<lparr>time = 60, close = 20\<rparr>]) dates ''BTCUSDT'' ''1m''
        = Inr (Some df) \<and>
      getitem df ''close'' = Inr cl \<and> sorted (index df) \<and> length (index df) = 3 \<and>
      mset (zip (index df) cl) = mset [(60, Fin 5), (0, Fin 10), (60, Fin 20)]"
proof -
  let ?cs = "[\<lparr>time = 60, close = 5\<rparr>, \<lparr>time = 0, close = 10\<rparr>, \<lparr>time = 60, close = 20\<rparr>]"
  let ?df = "frame_of (sort_key time ?cs) 1"
  have p: "process_data (first_day ?cs) dates ''BTCUSDT'' ''1m'' = Inr (Some ?df)"
    by (simp add: run_defs)
  have a: "concat (map (\<lambda>date. first_day ?cs ''BTCUSDT'' date ''1m'') dates) = ?cs"
    by (simp add: first_day_def dates_def)
  from bar_series_sorted[OF p] show ?thesis
    unfolding a using p by auto
qed

text \<open>
  The claim as written fails: the records (60, 5), (0, 10), (60, 20) give a series of
  three bars with the timestamps 0, 60, 60.
\<close>

theorem repeated_timestamps_kept:
  "map_sum id (map_option index)
     (process_data (first_day [\<lparr>time = 60, close = 5\<rparr>, \<lparr>time = 0, close = 10\<rparr>,
                               \<lparr>time = 60, close = 20\<rparr>]) dates ''BTCUSDT'' ''1m'')
     = Inr (Some [0, 60, 60]) \<and>
   \<not> distinct [0, 60, 60 :: int]"
  by (simp add: process_data_eq first_day_def dates_def frame_of_def)

section \<open>Pump and dump tests\<close>

text \<open>
  C4 (as amended). For every bucket bounds (low, high) and every negative return r,
  the dump test (r <= -low and r > -high) holds of r exactly when the pump test
  (>= low and < high) holds of |r|: dump bucketing is the absolute-value mirror of
  pump bucketing, boundaries included.
\<close>

theorem dump_mirrors_pump:
  assumes "flt r (Fin 0)"
  shows "dump_test low high r = pump_test low high (fabs r)"
  using assms by (rule dump_mirror)

theorem dump_mirrors_pump_witness:
  "flt (Fin (- 0.006)) (Fin 0) \<and>
   dump_test (Fin 0.006) (Fin 0.007) (Fin (- 0.006)) \<and>
   pump_test (Fin 0.006) (Fin 0.007) (fabs (Fin (- 0.006))) \<and>
   \<not> dump_test (Fin 0.005) (Fin 0.006) (Fin (- 0.006)) \<and>
   \<not> pump_test (Fin 0.005) (Fin 0.006) (fabs (Fin (- 0.006)))"
proof -
  have n: "flt (Fin (- 0.006)) (Fin 0)" by simp
  have a: "pump_test (Fin 0.006) (Fin 0.007) (fabs (Fin (- 0.006)))"
    by (simp add: pump_test_def)
  have b: "\<not> pump_test (Fin 0.005) (Fin 0.006) (fabs (Fin (- 0.006)))"
    by (simp add: pump_test_def)
  show ?thesis
    using n a b dump_mirrors_pump[OF n, of "Fin 0.006" "Fin 0.007"]
      dump_mirrors_pump[OF n, of "Fin 0.005" "Fin 0.006"] by simp
qed

text \<open>
  The claim as written fails: no bucket and no negative event return are told apart by
  the two tests.
\<close>

theorem no_asymmetric_bucket:
  "\<not> (\<exists>b r. b \<in> set buckets \<and> flt r (Fin 0) \<and> is_event r \<and>
        (case b of (low, high, label) \<Rightarrow> dump_test low high r \<noteq> pump_test low high (fabs r)))"
  by (auto simp: dump_mirror)

section \<open>Threshold and bucket boundaries\<close>


section \<open>Window length\<close>

text \<open>
  C6. In the frame that \<open>process_data\<close> returns, the N-minute return at position i
  is computed against the close N * factor positions earlier (close[i] divided by
  that close, minus 1) and is NaN at the first N * factor positions, where factor is 60
  for the resolution "1s" and 1 for "1m" and for every other string. In particular
  the 5-minute window uses 300 positions at "1s" and 5 at "1m".
\<close>

theorem window_bars:
  assumes "process_data fetch ds symbol resolution = Inr (Some df)" and "(n, c) \<in> set windows"
  shows "\<exists>cl ret. getitem df ''close'' = Inr cl \<and> getitem df c = Inr ret \<and>
           length ret = length cl \<and>
           (\<forall>i<length cl.
              ret ! i =
                (if i < n * (if resolution = ''1s'' then 60 else 1) then NaN
                 else fsub (fdiv (cl ! i)
                              (cl ! (i - n * (if resolution = ''1s'' then 60 else 1)))) (Fin 1))) \<and>
           (resolution = ''1s'' \<longrightarrow> getitem df ''ret_5m'' = Inr (pct_change 300 cl)) \<and>
           (resolution = ''1m'' \<longrightarrow> getitem df ''ret_5m'' = Inr (pct_change 5 cl))"
proof -
  let ?bars = "sort_key time (concat (map (\<lambda>date. fetch symbol date resolution) ds))"
  let ?cl = "map (\<lambda>c. Fin (close c)) ?bars"
  have df: "df = frame_of ?bars (factor_of resolution)"
    using process_data_Some[OF assms(1)] by simp
  have five: "(5, ''ret_5m'') \<in> set windows" by (simp add: windows_def)
  have "getitem df ''close'' = Inr ?cl"
    unfolding df by (rule getitem_frame_of_close)
  moreover have "getitem df c = Inr (pct_change (n * factor_of resolution) ?cl)"
    unfolding df by (rule getitem_frame_of_ret[OF assms(2)])
  moreover have "length (pct_change (n * factor_of resolution) ?cl) = length ?cl"
    by (rule length_pct_change)
  moreover have "\<forall>i<length ?cl. pct_change (n * factor_of resolution) ?cl ! i =
                (if i < n * (if resolution = ''1s'' then 60 else 1) then NaN
                 else fsub (fdiv (?cl ! i)
                              (?cl ! (i - n * (if resolution = ''1s'' then 60 else 1)))) (Fin 1))"
    using nth_pct_change[of _ ?cl "n * factor_of resolution"] by (simp add: factor_of_def)
  moreover have r5: "getitem df ''ret_5m'' = Inr (pct_change (5 * factor_of resolution) ?cl)"
    unfolding df by (rule getitem_frame_of_ret[OF five])
  have "resolution = ''1s'' \<longrightarrow> getitem df ''ret_5m'' = Inr (pct_change 300 ?cl)"
    using r5 by (auto simp: factor_of_def)
  moreover have "resolution = ''1m'' \<longrightarrow> getitem df ''ret_5m'' = Inr (pct_change 5 ?cl)"
    using r5 by (auto simp: factor_of_def)
  ultimately show ?thesis by blast
qed

theorem window_bars_witness:
  "(\<exists>df cl ret.
      process_data (first_day (minute_bars [1, 2, 3, 4, 5, 6, 8])) dates ''BTCUSDT'' ''1m''
        = Inr (Some df) \<and>
      (5, ''ret_5m'') \<in> set windows \<and>
      getitem df ''close'' = Inr cl \<and> cl = map Fin [1, 2, 3, 4, 5, 6, 8] \<and>
      getitem df ''ret_5m'' = Inr ret \<and> length ret = 7 \<and>
      ret ! 4 = NaN \<and> ret ! 5 = Fin 5 \<and> ret ! 6 = Fin 3 \<and>
      getitem df ''ret_5m'' = Inr (pct_change 5 cl)) \<and>
   (\<exists>df cl ret.
      process_data (first_day (second_bars (replicate 300 100 @ [105]))) dates ''BTCUSDT'' ''1s''
        = Inr (Some df) \<and>
      (5, ''ret_5m'') \<in> set windows \<and>
      getitem df ''close'' = Inr cl \<and> cl = map Fin (replicate 300 100 @ [105]) \<and>
      getitem df ''ret_5m'' = Inr ret \<and> length ret = 301 \<and>
      ret ! 299 = NaN \<and> ret ! 300 = Fin 0.05 \<and>
      getitem df ''ret_5m'' = Inr (pct_change 300 cl))"
proof -
  have minute: "\<exists>df cl ret.
      process_data (first_day (minute_bars [1, 2, 3, 4, 5, 6, 8])) dates ''BTCUSDT'' ''1m''
        = Inr (Some df) \<and>
      (5, ''ret_5m'') \<in> set windows \<and>
      getitem df ''close'' = Inr cl \<and> cl = map Fin [1, 2, 3, 4, 5, 6, 8] \<and>
      getitem df ''ret_5m'' = Inr ret \<and> length ret = 7 \<and>
      ret ! 4 = NaN \<and> ret ! 5 = Fin 5 \<and> ret ! 6 = Fin 3 \<and>
      getitem df ''ret_5m'' = Inr (pct_change 5 cl)"
  proof -
    let ?df = "frame_of (minute_bars [1, 2, 3, 4, 5, 6, 8]) 1"
    have p: "process_data (first_day (minute_bars [1, 2, 3, 4, 5, 6, 8])) dates ''BTCUSDT'' ''1m''
        = Inr (Some ?df)"
      by (simp add: run_defs)
    have w: "(5, ''ret_5m'') \<in> set windows" by (simp add: windows_def)
    have c: "getitem ?df ''close'' = Inr (map Fin [1, 2, 3, 4, 5, 6, 8])"
      by (simp add: getitem_frame_of_close minute_bars_def)
    from window_bars[OF p w] obtain cl ret where
      g: "getitem ?df ''close'' = Inr cl" and r: "getitem ?df ''ret_5m'' = Inr ret"
      and l: "length ret = length cl"
      and n: "\<forall>i<length cl. ret ! i =
                  (if i < 5 * (if ''1m'' = ''1s'' then 60 else 1) then NaN
                   else fsub (fdiv (cl ! i)
                                (cl ! (i - 5 * (if ''1m'' = ''1s'' then 60 else 1)))) (Fin 1))"
      and m: "''1m'' = ''1m'' \<longrightarrow> getitem ?df ''ret_5m'' = Inr (pct_change 5 cl)"
      by blast
    have cl: "cl = map Fin [1, 2, 3, 4, 5, 6, 8]" using g c by simp
    have "length ret = 7" using l cl by simp
    moreover have "ret ! 4 = NaN" "ret ! 5 = Fin 5" "ret ! 6 = Fin 3"
      using n[rule_format, of 4] n[rule_format, of 5] n[rule_format, of 6] by (simp_all add: cl)
    ultimately show ?thesis using p w g cl r m by blast
  qed
  have second: "\<exists>df cl ret.
      process_data (first_day (second_bars (replicate 300 100 @ [105]))) dates ''BTCUSDT'' ''1s''
        = Inr (Some df) \<and>
      (5, ''ret_5m'') \<in> set windows \<and>
      getitem df ''close'' = Inr cl \<and> cl = map Fin (replicate 300 100 @ [105]) \<and>
      getitem df ''ret_5m'' = Inr ret \<and> length ret = 301 \<and>
      ret ! 299 = NaN \<and> ret ! 300 = Fin 0.05 \<and>
      getitem df ''ret_5m'' = Inr (pct_change 300 cl)"
  proof -
    let ?cs = "replicate 300 100 @ [105 :: real]"
    let ?df = "frame_of (second_bars ?cs) 60"
    have ne: "second_bars ?cs \<noteq> []" by (rule second_bars_nonempty) simp
    have p: "process_data (first_day (second_bars ?cs)) dates ''BTCUSDT'' ''1s'' = Inr (Some ?df)"
      using ne by (simp add: process_data_eq first_day_def dates_def factor_of_def sort_second_bars)
    have w: "(5, ''ret_5m'') \<in> set windows" by (simp add: windows_def)
    have c: "getitem ?df ''close'' = Inr (map Fin ?cs)"
    proof -
      have "map (\<lambda>c. Fin (close c)) (second_bars ?cs) = map Fin (map close (second_bars ?cs))"
        by (simp add: comp_def)
      then show ?thesis
        unfolding getitem_frame_of_close map_close_second_bars by (rule arg_cong)
    qed
    from window_bars[OF p w] obtain cl ret where
      g: "getitem ?df ''close'' = Inr cl" and r: "getitem ?df ''ret_5m'' = Inr ret"
      and l: "length ret = length cl"
      and n: "\<forall>i<length cl. ret ! i =
                  (if i < 5 * (if ''1s'' = ''1s'' then 60 else 1) then NaN
                   else fsub (fdiv (cl ! i)
                                (cl ! (i - 5 * (if ''1s'' = ''1s'' then 60 else 1)))) (Fin 1))"
      and m: "''1s'' = ''1s'' \<longrightarrow> getitem ?df ''ret_5m'' = Inr (pct_change 300 cl)"
      by blast
    have cl: "cl = map Fin ?cs" using g c by simp
    have len: "length cl = 301" by (simp add: cl)
    have "length ret = 301" using l len by simp
    moreover have "ret ! 299 = NaN" using n[rule_format, of 299] len by simp
    moreover have "ret ! 300 = Fin 0.05"
      using n[rule_format, of 300] len by (simp add: cl nth_append)
    ultimately show ?thesis using p w g cl r m by blast
  qed
  from minute second show ?thesis by (rule conjI)
qed


section \<open>No data and no events\<close>



section \<open>No event is counted twice\<close>

text \<open>
  C9. For every event row of \<open>analyze_volatility\<close>, the return passes the pump test of
  at most one bucket and the dump test of at most one bucket, and never a pump test
  and a dump test together; the counts of the returned table add up to the number of
  tests passed, one event at a time, so no event is counted twice across the rows.
\<close>

theorem one_count_per_event:
  assumes "wf_df df" and "getitem df window_col = Inr col"
  shows "(\<forall>r\<in>set (filter is_event col).
            pump_hits r \<le> 1 \<and> dump_hits r \<le> 1 \<and> (pump_hits r = 0 \<or> dump_hits r = 0)) \<and>
         (\<exists>rows. analyze_volatility df window_col = Inr rows \<and>
            sum_list (map Pumps rows) + sum_list (map Dumps rows) =
              (\<Sum>r\<leftarrow>filter is_event col. pump_hits r + dump_hits r) \<and>
            sum_list (map Pumps rows) + sum_list (map Dumps rows) \<le> length (filter is_event col))"
proof -
  let ?ev = "filter is_event col"
  have one: "pump_hits r \<le> 1 \<and> dump_hits r \<le> 1 \<and> (pump_hits r = 0 \<or> dump_hits r = 0)" for r
    using hits_le_1[of r] by linarith
  have av: "analyze_volatility df window_col = (if ?ev = [] then Inr [] else Inr (rows_of ?ev))"
    by (rule analyze_volatility_rows[OF assms])
  have tot: "sum_list (map Pumps (rows_of ?ev)) + sum_list (map Dumps (rows_of ?ev)) =
      (\<Sum>r\<leftarrow>?ev. pump_hits r + dump_hits r)"
    by (rule total_counts)
  have le: "(\<Sum>r\<leftarrow>?ev. pump_hits r + dump_hits r) \<le> length ?ev"
    by (rule total_le)
  show ?thesis
  proof (cases "?ev = []")
    case True
    then show ?thesis using av one by simp
  next
    case False
    then show ?thesis using av one tot le by (simp del: filter_filter)
  qed
qed

theorem one_count_per_event_witness:
  "wf_df \<lparr>index = [0, 60], cols = [(''ret_5m'', [Fin 0.006, Fin (- 0.012)])]\<rparr> \<and>
   getitem \<lparr>index = [0, 60], cols = [(''ret_5m'', [Fin 0.006, Fin (- 0.012)])]\<rparr> ''ret_5m''
     = Inr [Fin 0.006, Fin (- 0.012)] \<and>
   is_event (Fin 0.006) \<and> pump_hits (Fin 0.006) = 1 \<and> dump_hits (Fin 0.006) = 0 \<and>
   is_event (Fin (- 0.012)) \<and> pump_hits (Fin (- 0.012)) = 0 \<and> dump_hits (Fin (- 0.012)) = 1 \<and>
   (\<exists>rows. analyze_volatility
        \<lparr>index = [0, 60], cols = [(''ret_5m'', [Fin 0.006, Fin (- 0.012)])]\<rparr> ''ret_5m'' = Inr rows \<and>
      sum_list (map Pumps rows) + sum_list (map Dumps rows) = 2)"
proof -
  let ?df = "\<lparr>index = [0, 60], cols = [(''ret_5m'', [Fin 0.006, Fin (- 0.012)])]\<rparr>"
  let ?col = "[Fin 0.006, Fin (- 0.012)]"
  have w: "wf_df ?df" by (simp add: wf_df_def)
  have g: "getitem ?df ''ret_5m'' = Inr ?col" by (simp add: getitem_def)
  have e: "is_event (Fin 0.006)" "is_event (Fin (- 0.012))" by (simp_all add: is_event_def)
  have h: "pump_hits (Fin 0.006) = 1" "dump_hits (Fin 0.006) = 0"
    "pump_hits (Fin (- 0.012)) = 0" "dump_hits (Fin (- 0.012)) = 1"
    by (simp_all add: pump_hits_Fin dump_hits_Fin)
  have f: "filter is_event ?col = ?col" using e by simp
  have t: "(\<Sum>r\<leftarrow>filter is_event ?col. pump_hits r + dump_hits r) = 2"
    unfolding f by (simp add: pump_hits_Fin dump_hits_Fin)
  from one_count_per_event[OF w g]
  obtain rows where a: "analyze_volatility ?df ''ret_5m'' = Inr rows"
    and b: "sum_list (map Pumps rows) + sum_list (map Dumps rows) =
        (\<Sum>r\<leftarrow>filter is_event ?col. pump_hits r + dump_hits r)"
    by blast
  from b t have "sum_list (map Pumps rows) + sum_list (map Dumps rows) = 2"
    by (rule trans)
  with a have "\<exists>rows. analyze_volatility ?df ''ret_5m'' = Inr rows \<and>
      sum_list (map Pumps rows) + sum_list (map Dumps rows) = 2"
    by blast
  then show ?thesis using w g e h by blast
qed

section \<open>The input frame is not written\<close>

text \<open>
  C10. \<open>analyze_volatility\<close> does not change the frame it is given: after the call
  the store holds the same frame at the input's reference, every frame that existed
  before is as it was (the call only adds new frames), and the result is that of the
  function on values.
\<close>

theorem input_not_mutated:
  assumes "df < length h"
  shows "snd (analyze_volatility_st h df window_col) ! df = h ! df \<and>
         take (length h) (snd (analyze_volatility_st h df window_col)) = h \<and>
         fst (analyze_volatility_st h df window_col) = analyze_volatility (h ! df) window_col"
proof -
  obtain h' where "analyze_volatility_st h df window_col
      = (analyze_volatility (h ! df) window_col, h @ h')"
    using analyze_volatility_st_eq by blast
  then show ?thesis using assms by (simp add: nth_append)
qed

theorem input_not_mutated_witness:
  "(0::nat) < length [\<lparr>index = [0, 60], cols = [(''ret_5m'', [Fin 0.006, Fin 0.001])]\<rparr>] \<and>
   snd (analyze_volatility_st
          [\<lparr>index = [0, 60], cols = [(''ret_5m'', [Fin 0.006, Fin 0.001])]\<rparr>] 0 ''ret_5m'') ! 0
     = \<lparr>index = [0, 60], cols = [(''ret_5m'', [Fin 0.006, Fin 0.001])]\<rparr> \<and>
   length (snd (analyze_volatility_st
          [\<lparr>index = [0, 60], cols = [(''ret_5m'', [Fin 0.006, Fin 0.001])]\<rparr>] 0 ''ret_5m'')) = 19 \<and>
   map Pumps (projr (fst (analyze_volatility_st
          [\<lparr>index = [0, 60], cols = [(''ret_5m'', [Fin 0.006, Fin 0.001])]\<rparr>] 0 ''ret_5m'')))
     = [0, 1, 0, 0, 0, 0, 0, 0]"
proof -
  let ?df = "\<lparr>index = [0, 60], cols = [(''ret_5m'', [Fin 0.006, Fin 0.001])]\<rparr>"
  have l: "(0::nat) < length [?df]" by simp
  have n: "length (snd (analyze_volatility_st [?df] 0 ''ret_5m'')) = 19"
    by (simp add: analyze_volatility_st_def bucket_counts_st_def alloc_def eval_defs Let_def)
  have r: "map Pumps (projr (analyze_volatility ([?df] ! 0) ''ret_5m'')) = [0, 1, 0, 0, 0, 0, 0, 0]"
    by (simp add: eval_defs)
  show ?thesis using input_not_mutated[OF l, of "''ret_5m''"] l n r by simp
qed

end
